theory Spec2Isabelle
  imports Main "HOL-Library.Word" "HOL-Library.Char_ord" "HOL-Library.List_Lexorder"
begin

unbundle bit_operations_syntax

section \<open>The trace-event object model of polytracker/tracing.h\<close>

subsection \<open>Machine types and pointers\<close>

text \<open>
  \<^verbatim>\<open>size_t\<close> and \<^verbatim>\<open>uint64_t\<close> are 64-bit unsigned words: addition wraps around at
  \<open>2 ^ 64\<close> and the order is the unsigned one. Objects live in an explicit store indexed by
  addresses; a C++ pointer is an optional address, \<open>None\<close> being \<^verbatim>\<open>nullptr\<close>.
\<close>

type_synonym size_t = "64 word"
type_synonym uint64_t = "64 word"
type_synonym addr = nat
type_synonym ptr = "addr option"
type_synonym thread_id = nat

text \<open>
  Modelled from the spec: \<^verbatim>\<open>BBIndex\<close> and \<^verbatim>\<open>dfsan_label\<close> are declared in
  \<^verbatim>\<open>dfsan/dfsan_types.h\<close>, a header outside \<^verbatim>\<open>tracing.h\<close>. The spec calls both
  opaque small integers that are comparable and hashable. The hasher passes a
  \<^verbatim>\<open>BBIndex\<close> to \<^verbatim>\<open>hash<uint64_t>\<close>, so it is read as a 64-bit word with the unsigned
  order; labels are only ever compared for equality and are natural numbers here.
\<close>

type_synonym BBIndex = "64 word"
type_synonym dfsan_label = nat

subsection \<open>BasicBlockTrace\<close>

text \<open>
  \<^verbatim>\<open>fname\<close> is a \<^verbatim>\<open>const char *\<close>: an address into string memory. Equality compares
  the addresses, the order compares the characters stored there, so both the address and
  the memory are part of the model. String memory maps an address to the bytes stored
  from there on; the terminating NUL is implicit after the last byte, and a NUL byte
  inside the list ends the C string earlier, as it does for \<^verbatim>\<open>strcmp\<close>.
\<close>

type_synonym strmem = "addr \<Rightarrow> string"

record BasicBlockTrace =
  fname :: addr
  index :: BBIndex
  entryCount :: size_t

text \<open>\<^verbatim>\<open>operator==\<close>: pointer equality on the name, then the two integer fields.\<close>

definition operator_eq :: "BasicBlockTrace \<Rightarrow> BasicBlockTrace \<Rightarrow> bool" where
  "operator_eq this other =
     (fname this = fname other \<and> index this = index other \<and> entryCount this = entryCount other)"

text \<open>
  \<^verbatim>\<open>strcmp\<close> from the C library: the difference of the first pair of bytes that differ,
  read as \<^verbatim>\<open>unsigned char\<close>, and 0 when both strings end together. Only its sign is used.
\<close>

fun strcmp :: "string \<Rightarrow> string \<Rightarrow> int" where
  "strcmp [] [] = 0"
| "strcmp [] (y # ys) = - int (of_char y)"
| "strcmp (x # xs) [] = int (of_char x)"
| "strcmp (x # xs) (y # ys) =
     (if x = y then (if x = CHR 0x00 then 0 else strcmp xs ys)
      else int (of_char x) - int (of_char y))"

text \<open>The C string held by a byte sequence: everything before the first NUL.\<close>

definition c_str :: "string \<Rightarrow> string" where
  "c_str s = takeWhile (\<lambda>c. c \<noteq> CHR 0x00) s"

text \<open>\<^verbatim>\<open>operator<\<close>, with the string memory it reads through \<^verbatim>\<open>fname\<close>.\<close>

definition operator_less :: "strmem \<Rightarrow> BasicBlockTrace \<Rightarrow> BasicBlockTrace \<Rightarrow> bool" where
  "operator_less m this rhs =
     (let fnameCmp = strcmp (m (fname this)) (m (fname rhs)) in
      if fnameCmp = 0 then
        (if index this = index rhs then entryCount this < entryCount rhs
         else index this < index rhs)
      else fnameCmp < 0)"

text \<open>
  \<^verbatim>\<open>BasicBlockTraceHasher\<close>. What \<^verbatim>\<open>std::hash<uint64_t>\<close> and \<^verbatim>\<open>std::hash<size_t>\<close>
  compute is left to the standard library, so both are parameters.
\<close>

definition BasicBlockTraceHasher ::
    "(uint64_t \<Rightarrow> size_t) \<Rightarrow> (size_t \<Rightarrow> size_t) \<Rightarrow> BasicBlockTrace \<Rightarrow> size_t" where
  "BasicBlockTraceHasher hash_uint64 hash_size bb =
     push_bit 1 (hash_uint64 (index bb)) XOR push_bit 1 (hash_size (entryCount bb))"

subsection \<open>Trace events\<close>

text \<open>
  \<^verbatim>\<open>TraceEvent\<close> is a polymorphic base class that can also be instantiated on its own.
  The dynamic type of an object, together with the fields its subclass adds, is the
  \<open>kind\<close> of the stored event; \<^verbatim>\<open>dynamic_cast\<close> is a match on it. The fields of a
  \<open>BasicBlockEntry\<close> are \<^verbatim>\<open>entryCounter\<close>, \<^verbatim>\<open>fname\<close> and \<^verbatim>\<open>index\<close>, in the order of
  their declaration; \<open>FunctionReturn\<close> carries \<^verbatim>\<open>fname\<close> and \<^verbatim>\<open>returningTo\<close>.
\<close>

datatype EventKind =
    PlainTraceEvent
  | BasicBlockEntry size_t addr BBIndex
  | FunctionCall addr
  | FunctionReturn addr ptr

record TraceEvent =
  previous :: ptr
  eventIndex :: size_t
  kind :: EventKind

type_synonym heap = "addr \<Rightarrow> TraceEvent"

text \<open>\<^verbatim>\<open>dynamic_cast<const BasicBlockEntry*>(event)\<close> and \<^verbatim>\<open>dynamic_cast<FunctionCall*>(event)\<close>
  succeed exactly on objects of that dynamic type.\<close>

fun is_BasicBlockEntry :: "EventKind \<Rightarrow> bool" where
  "is_BasicBlockEntry (BasicBlockEntry c f i) = True"
| "is_BasicBlockEntry k = False"

fun is_FunctionCall :: "EventKind \<Rightarrow> bool" where
  "is_FunctionCall (FunctionCall f) = True"
| "is_FunctionCall k = False"

text \<open>
  Modelled from the spec: the constructor \<^verbatim>\<open>TraceEvent::TraceEvent()\<close> and the
  definition of the counter \<^verbatim>\<open>numTraceEvents\<close> are only declared in the header. By the
  spec, constructing an event assigns it the next value of the process-wide counter,
  which starts at zero, is incremented exactly once per constructed event and is never
  reset or decremented, and leaves \<^verbatim>\<open>previous\<close> unset. The header gives the types: the
  counter is declared \<^verbatim>\<open>extern size_t numTraceEvents\<close> and the field \<^verbatim>\<open>size_t eventIndex\<close>,
  so the increment is the wrapping addition of a 64-bit word. The constructor takes the
  counter and returns the new object together with the counter after the construction.
\<close>

definition numTraceEvents_init :: size_t where
  "numTraceEvents_init = 0"

definition TraceEvent_ctor :: "EventKind \<Rightarrow> size_t \<Rightarrow> TraceEvent \<times> size_t" where
  "TraceEvent_ctor k numTraceEvents =
     (\<lparr>previous = None, eventIndex = numTraceEvents, kind = k\<rparr>, numTraceEvents + 1)"

text \<open>A run of constructions, one per requested kind, in order; the events come back in
  construction order together with the final counter.\<close>

fun construct_events :: "EventKind list \<Rightarrow> size_t \<Rightarrow> TraceEvent list \<times> size_t" where
  "construct_events [] n = ([], n)"
| "construct_events (k # ks) n =
     (case TraceEvent_ctor k n of (e, n') \<Rightarrow>
        (case construct_events ks n' of (es, n'') \<Rightarrow> (e # es, n'')))"

text \<open>
  \<^verbatim>\<open>FunctionCall::getCaller\<close>: the loop starts at \<^verbatim>\<open>this->previous\<close> and follows
  \<^verbatim>\<open>previous\<close> until a \<open>BasicBlockEntry\<close> or the null pointer. Nothing in the code
  prevents a cyclic chain (the same object pushed twice points to itself), on which the
  loop does not return: the outer \<open>option\<close> is \<open>None\<close> for a loop that runs forever.
\<close>

partial_function (option) getCaller_loop :: "heap \<Rightarrow> ptr \<Rightarrow> ptr option" where
  "getCaller_loop h event =
     (case event of
        None \<Rightarrow> Some None
      | Some a \<Rightarrow>
          (if is_BasicBlockEntry (kind (h a)) then Some (Some a)
           else getCaller_loop h (previous (h a))))"

definition getCaller :: "heap \<Rightarrow> addr \<Rightarrow> ptr option" where
  "getCaller h this = getCaller_loop h (previous (h this))"

text \<open>
  A stretch of the chain of events behind a pointer: \<open>event_path h p as q\<close> holds when
  following \<^verbatim>\<open>previous\<close> from \<open>p\<close> visits the objects at the addresses \<open>as\<close>, nearest
  first, and arrives at the pointer \<open>q\<close>. The chain ends behind \<open>as\<close> when \<open>q\<close> is the
  null pointer.
\<close>

fun event_path :: "heap \<Rightarrow> ptr \<Rightarrow> addr list \<Rightarrow> ptr \<Rightarrow> bool" where
  "event_path h p [] q = (p = q)"
| "event_path h p (a # as) q = (p = Some a \<and> event_path h (previous (h a)) as q)"

subsection \<open>TraceEventStack\<close>

record TraceEventStack =
  head :: ptr
  eventHistory :: "addr list"

text \<open>The constructor: \<^verbatim>\<open>TraceEventStack() : head(nullptr) {}\<close>, with an empty history vector.\<close>

definition TraceEventStack_new :: TraceEventStack where
  "TraceEventStack_new = \<lparr>head = None, eventHistory = []\<rparr>"

text \<open>\<^verbatim>\<open>operator bool() const { return head != nullptr; }\<close>\<close>

definition operator_bool :: "TraceEventStack \<Rightarrow> bool" where
  "operator_bool s = (head s \<noteq> None)"

text \<open>\<^verbatim>\<open>bool empty() const { return head != nullptr; }\<close>\<close>

definition empty_stack :: "TraceEventStack \<Rightarrow> bool" where
  "empty_stack s = (head s \<noteq> None)"

text \<open>\<^verbatim>\<open>TraceEvent *peek() const { return head; }\<close>\<close>

definition peek :: "TraceEventStack \<Rightarrow> ptr" where
  "peek s = head s"

text \<open>
  \<^verbatim>\<open>push\<close> writes the \<^verbatim>\<open>previous\<close> field of the pushed object in the store, then moves
  the head and appends the pointer to the history.
\<close>

definition push :: "addr \<Rightarrow> heap \<times> TraceEventStack \<Rightarrow> heap \<times> TraceEventStack" where
  "push event hs =
     (case hs of (h, s) \<Rightarrow>
        (h(event := (h event)\<lparr>previous := head s\<rparr>),
         s\<lparr>head := Some event, eventHistory := eventHistory s @ [event]\<rparr>))"

text \<open>
  \<^verbatim>\<open>pop\<close> only reads the store. It returns whether there was a head, and the stack
  after the call.
\<close>

definition pop :: "heap \<Rightarrow> TraceEventStack \<Rightarrow> bool \<times> TraceEventStack" where
  "pop h s =
     (case head s of
        Some oldHead \<Rightarrow> (True, s\<lparr>head := previous (h oldHead)\<rparr>)
      | None \<Rightarrow> (False, s))"

subsection \<open>Trace\<close>

record Trace =
  lastUsages :: "dfsan_label \<rightharpoonup> ptr"
  lastUsagesByBB :: "ptr \<rightharpoonup> dfsan_label set"
  eventStacks :: "thread_id \<rightharpoonup> TraceEventStack"

definition Trace_new :: Trace where
  "Trace_new = \<lparr>lastUsages = Map.empty, lastUsagesByBB = Map.empty, eventStacks = Map.empty\<rparr>"

text \<open>
  \<^verbatim>\<open>eventStacks[key]\<close>: \<^verbatim>\<open>operator[]\<close> of \<^verbatim>\<open>unordered_map\<close> inserts a default-constructed
  stack when the key is absent, and returns the stack stored under the key.
\<close>

definition eventStacks_at :: "thread_id \<Rightarrow> Trace \<Rightarrow> TraceEventStack \<times> Trace" where
  "eventStacks_at key t =
     (case eventStacks t key of
        Some s \<Rightarrow> (s, t)
      | None \<Rightarrow> (TraceEventStack_new, t\<lparr>eventStacks := (eventStacks t)(key \<mapsto> TraceEventStack_new)\<rparr>))"

text \<open>
  The identity of the calling thread, \<^verbatim>\<open>std::this_thread::get_id()\<close>, is the parameter
  \<open>self\<close> of every member function that asks for it.
\<close>

definition getStack :: "thread_id \<Rightarrow> thread_id \<Rightarrow> Trace \<Rightarrow> TraceEventStack \<times> Trace" where
  "getStack thread self t = eventStacks_at self t"

definition currentStack :: "thread_id \<Rightarrow> Trace \<Rightarrow> TraceEventStack \<times> Trace" where
  "currentStack self t = eventStacks_at self t"

text \<open>The \<^verbatim>\<open>const\<close> overload looks the key up without inserting.\<close>

definition currentStack_const :: "thread_id \<Rightarrow> Trace \<Rightarrow> TraceEventStack option" where
  "currentStack_const self t = eventStacks t self"

definition lastEvent :: "thread_id \<Rightarrow> Trace \<Rightarrow> ptr" where
  "lastEvent self t =
     (case currentStack_const self t of Some stack \<Rightarrow> peek stack | None \<Rightarrow> None)"

definition secondToLastEvent :: "heap \<Rightarrow> thread_id \<Rightarrow> Trace \<Rightarrow> ptr" where
  "secondToLastEvent h self t =
     (case lastEvent self t of Some last' \<Rightarrow> previous (h last') | None \<Rightarrow> None)"

text \<open>The loop of \<^verbatim>\<open>currentBB\<close>; as for \<open>getCaller_loop\<close>, \<open>None\<close> is a loop that does
  not return.\<close>

partial_function (option) currentBB_loop :: "heap \<Rightarrow> ptr \<Rightarrow> ptr option" where
  "currentBB_loop h event =
     (case event of
        None \<Rightarrow> Some None
      | Some a \<Rightarrow>
          (if is_BasicBlockEntry (kind (h a)) then Some (Some a)
           else if is_FunctionCall (kind (h a)) then Some None
           else currentBB_loop h (previous (h a))))"

definition currentBB :: "heap \<Rightarrow> thread_id \<Rightarrow> Trace \<Rightarrow> ptr option" where
  "currentBB h self t = currentBB_loop h (lastEvent self t)"

text \<open>
  \<^verbatim>\<open>lastUsagesByBB[key]\<close>: the set stored under the key, the empty set when
  \<^verbatim>\<open>operator[]\<close> has to insert it first.
\<close>

definition lastUsagesByBB_at :: "(ptr \<rightharpoonup> dfsan_label set) \<Rightarrow> ptr \<Rightarrow> dfsan_label set" where
  "lastUsagesByBB_at m key = (case m key of Some labels \<Rightarrow> labels | None \<Rightarrow> {})"

definition setLastUsage :: "dfsan_label \<Rightarrow> ptr \<Rightarrow> Trace \<Rightarrow> Trace" where
  "setLastUsage canonicalByte bb t =
     (let byBB =
            (case lastUsages t canonicalByte of
               Some oldValue \<Rightarrow>
                 (lastUsagesByBB t)
                   (oldValue \<mapsto> lastUsagesByBB_at (lastUsagesByBB t) oldValue - {canonicalByte})
             | None \<Rightarrow> lastUsagesByBB t)
      in t\<lparr>lastUsages := (lastUsages t)(canonicalByte \<mapsto> bb),
            lastUsagesByBB := byBB(bb \<mapsto> insert canonicalByte (lastUsagesByBB_at byBB bb))\<rparr>)"

definition getLastUsage :: "dfsan_label \<Rightarrow> Trace \<Rightarrow> ptr" where
  "getLastUsage label t = (case lastUsages t label of Some bb \<Rightarrow> bb | None \<Rightarrow> None)"

definition taints :: "Trace \<Rightarrow> (dfsan_label \<rightharpoonup> ptr)" where
  "taints t = lastUsages t"

definition taints_bb :: "ptr \<Rightarrow> Trace \<Rightarrow> dfsan_label set" where
  "taints_bb bb t = (case lastUsagesByBB t bb of None \<Rightarrow> {} | Some labels \<Rightarrow> labels)"

text \<open>A run of \<^verbatim>\<open>setLastUsage\<close> calls, in order.\<close>

fun setLastUsage_all :: "(dfsan_label \<times> ptr) list \<Rightarrow> Trace \<Rightarrow> Trace" where
  "setLastUsage_all [] t = t"
| "setLastUsage_all ((l, bb) # cs) t = setLastUsage_all cs (setLastUsage l bb t)"

text \<open>
  The two maps describe the same relation: a label is in the set stored for a block
  (the empty set for a block without an entry) exactly when the label's last usage is that
  block.
\<close>

definition dual_map_exact :: "Trace \<Rightarrow> bool" where
  "dual_map_exact t =
     (\<forall>l bb. (l \<in> lastUsagesByBB_at (lastUsagesByBB t) bb) = (lastUsages t l = Some bb))"

subsection \<open>An example store\<close>

text \<open>
  Five objects that have been constructed but not pushed yet: the entry of block 0 of
  the function named at address 100, a call of the function named at 200, the entry of
  its block 0, a return from it, and a call of the first function. The runs below push
  them onto a new stack, which the trace then holds for thread 0.
\<close>

definition example_heap :: heap where
  "example_heap = (\<lambda>a.
     if a = 1 then \<lparr>previous = None, eventIndex = 0, kind = BasicBlockEntry 0 100 0\<rparr>
     else if a = 2 then \<lparr>previous = None, eventIndex = 1, kind = FunctionCall 200\<rparr>
     else if a = 3 then \<lparr>previous = None, eventIndex = 2, kind = BasicBlockEntry 0 200 0\<rparr>
     else if a = 4 then \<lparr>previous = None, eventIndex = 3, kind = FunctionReturn 200 (Some 1)\<rparr>
     else if a = 5 then \<lparr>previous = None, eventIndex = 4, kind = FunctionCall 100\<rparr>
     else \<lparr>previous = None, eventIndex = of_nat a, kind = PlainTraceEvent\<rparr>)"

definition example_run1 :: "heap \<times> TraceEventStack" where
  "example_run1 = push 1 (example_heap, TraceEventStack_new)"

definition example_run2 :: "heap \<times> TraceEventStack" where
  "example_run2 = push 2 example_run1"

definition example_run3 :: "heap \<times> TraceEventStack" where
  "example_run3 = push 3 example_run2"

definition example_run4 :: "heap \<times> TraceEventStack" where
  "example_run4 = push 4 example_run3"

definition example_run5 :: "heap \<times> TraceEventStack" where
  "example_run5 = push 5 (push 4 example_run2)"

definition example_trace :: "heap \<times> TraceEventStack \<Rightarrow> Trace" where
  "example_trace hs = Trace_new\<lparr>eventStacks := [0 \<mapsto> snd hs]\<rparr>"

text \<open>String memory with the name \<open>a\<close> stored at two addresses and the name \<open>b\<close> at a third.\<close>

definition example_strmem :: strmem where
  "example_strmem =
     (\<lambda>a. if a = 100 then ''a'' else if a = 200 then ''b'' else if a = 300 then ''a'' else [])"

section \<open>Properties of the event stack\<close>

text \<open>
  Claim C3. After \<open>push e\<close> on any stack, over any store: \<open>peek\<close> returns \<open>e\<close>; the
  \<open>previous\<close> field of \<open>e\<close> is what \<open>peek\<close> returned before the push (\<open>None\<close>, the
  null pointer, on an empty stack); the history is the old history with \<open>e\<close> appended;
  the other fields of \<open>e\<close> and every other object in the store are untouched.
\<close>

theorem push_peek_previous_history:
  "peek (snd (push e (h, s))) = Some e
   \<and> previous (fst (push e (h, s)) e) = peek s
   \<and> eventHistory (snd (push e (h, s))) = eventHistory s @ [e]
   \<and> eventIndex (fst (push e (h, s)) e) = eventIndex (h e)
   \<and> kind (fst (push e (h, s)) e) = kind (h e)
   \<and> (\<forall>a. a \<noteq> e \<longrightarrow> fst (push e (h, s)) a = h a)"
  by (simp add: push_def peek_def)

theorem push_peek_previous_history_witness:
  "peek (snd (push 2 (push 1 (example_heap, TraceEventStack_new)))) = Some 2
   \<and> previous (fst (push 2 (push 1 (example_heap, TraceEventStack_new))) 2) = Some 1
   \<and> eventHistory (snd (push 2 (push 1 (example_heap, TraceEventStack_new)))) = [1, 2]
   \<and> (1::nat) \<noteq> 2
   \<and> fst (push 2 (push 1 (example_heap, TraceEventStack_new))) 1
       = fst (push 1 (example_heap, TraceEventStack_new)) 1"
  using push_peek_previous_history
    [of 2 "fst (push 1 (example_heap, TraceEventStack_new))"
          "snd (push 1 (example_heap, TraceEventStack_new))"]
  by (simp add: push_def peek_def TraceEventStack_new_def)

text \<open>
  Claim C4. \<open>empty\<close> is claimed to hold exactly when the head is not set. In the code
  \<open>empty\<close> is the same test as the boolean conversion, \<^verbatim>\<open>head != nullptr\<close>: on a newly
  constructed stack, where \<open>peek\<close> returns the null pointer, \<open>empty\<close> returns false, and
  after a push it returns true.
\<close>

theorem empty_stack_is_operator_bool:
  "empty_stack s = operator_bool s
   \<and> peek TraceEventStack_new = None
   \<and> operator_bool TraceEventStack_new = False
   \<and> empty_stack TraceEventStack_new = False
   \<and> peek (snd (push 1 (example_heap, TraceEventStack_new))) = Some 1
   \<and> empty_stack (snd (push 1 (example_heap, TraceEventStack_new))) = True"
  by (simp add: peek_def operator_bool_def empty_stack_def TraceEventStack_new_def push_def)

text \<open>
  Claim C5. On a stack whose head is set, \<open>pop\<close> returns true, moves the head to the
  \<open>previous\<close> field of the old head, and leaves the history as it was. \<open>pop\<close> takes the
  store read-only, so no stored event is modified.
\<close>

theorem pop_moves_head_keeps_history:
  assumes "peek s = Some a"
  shows "pop h s = (True, s\<lparr>head := previous (h a)\<rparr>)
         \<and> peek (snd (pop h s)) = previous (h a)
         \<and> eventHistory (snd (pop h s)) = eventHistory s"
  using assms by (simp add: pop_def peek_def)

theorem pop_moves_head_keeps_history_witness:
  "peek (snd (push 2 (push 1 (example_heap, TraceEventStack_new)))) = Some 2
   \<and> peek (snd (pop (fst (push 2 (push 1 (example_heap, TraceEventStack_new))))
                     (snd (push 2 (push 1 (example_heap, TraceEventStack_new)))))) = Some 1
   \<and> eventHistory (snd (pop (fst (push 2 (push 1 (example_heap, TraceEventStack_new))))
                     (snd (push 2 (push 1 (example_heap, TraceEventStack_new)))))) = [1, 2]"
  using pop_moves_head_keeps_history
    [of "snd (push 2 (push 1 (example_heap, TraceEventStack_new)))" 2
        "fst (push 2 (push 1 (example_heap, TraceEventStack_new)))"]
  by (simp add: push_def peek_def TraceEventStack_new_def)

section \<open>Properties of the trace\<close>

text \<open>
  Claim C10. \<open>getStack\<close> does not look at its thread argument: for any two arguments the
  result is the same, and it is the result of \<open>currentStack\<close>, the stack stored under the
  calling thread's own identity. After the call that stack is in the map; it is the
  stored one if there was one, and a newly constructed stack inserted under the calling
  thread's identity otherwise.
\<close>

theorem getStack_ignores_argument:
  "getStack t1 self t = getStack t2 self t
   \<and> getStack t1 self t = currentStack self t
   \<and> eventStacks (snd (getStack t1 self t)) self = Some (fst (getStack t1 self t))
   \<and> (\<forall>s. eventStacks t self = Some s \<longrightarrow> getStack t1 self t = (s, t))
   \<and> (eventStacks t self = None \<longrightarrow>
        getStack t1 self t
          = (TraceEventStack_new, t\<lparr>eventStacks := (eventStacks t)(self \<mapsto> TraceEventStack_new)\<rparr>))"
  by (simp add: getStack_def currentStack_def eventStacks_at_def split: option.splits)

theorem getStack_ignores_argument_witness:
  "eventStacks Trace_new 3 = None
   \<and> getStack 7 3 Trace_new = getStack 9 3 Trace_new
   \<and> getStack 7 3 Trace_new
       = (TraceEventStack_new, Trace_new\<lparr>eventStacks := (eventStacks Trace_new)(3 \<mapsto> TraceEventStack_new)\<rparr>)
   \<and> eventStacks (Trace_new\<lparr>eventStacks := [3 \<mapsto> \<lparr>head = Some 1, eventHistory = [1]\<rparr>]\<rparr>) 3
       = Some \<lparr>head = Some 1, eventHistory = [1]\<rparr>
   \<and> getStack 7 3 (Trace_new\<lparr>eventStacks := [3 \<mapsto> \<lparr>head = Some 1, eventHistory = [1]\<rparr>]\<rparr>)
       = (\<lparr>head = Some 1, eventHistory = [1]\<rparr>,
          Trace_new\<lparr>eventStacks := [3 \<mapsto> \<lparr>head = Some 1, eventHistory = [1]\<rparr>]\<rparr>)"
proof -
  have absent: "eventStacks Trace_new 3 = None"
    by (simp add: Trace_new_def)
  have present:
    "eventStacks (Trace_new\<lparr>eventStacks := [3 \<mapsto> \<lparr>head = Some 1, eventHistory = [1]\<rparr>]\<rparr>) 3
       = Some \<lparr>head = Some 1, eventHistory = [1]\<rparr>"
    by simp
  from absent getStack_ignores_argument [of 7 3 Trace_new 9]
  have fresh:
    "getStack 7 3 Trace_new = getStack 9 3 Trace_new
     \<and> getStack 7 3 Trace_new
       = (TraceEventStack_new, Trace_new\<lparr>eventStacks := (eventStacks Trace_new)(3 \<mapsto> TraceEventStack_new)\<rparr>)"
    by blast
  from present
    getStack_ignores_argument
      [of 7 3 "Trace_new\<lparr>eventStacks := [3 \<mapsto> \<lparr>head = Some 1, eventHistory = [1]\<rparr>]\<rparr>" 9]
  have kept:
    "getStack 7 3 (Trace_new\<lparr>eventStacks := [3 \<mapsto> \<lparr>head = Some 1, eventHistory = [1]\<rparr>]\<rparr>)
       = (\<lparr>head = Some 1, eventHistory = [1]\<rparr>,
          Trace_new\<lparr>eventStacks := [3 \<mapsto> \<lparr>head = Some 1, eventHistory = [1]\<rparr>]\<rparr>)"
    by blast
  from absent present fresh kept show ?thesis by blast
qed

lemma dual_map_exact_new: "dual_map_exact Trace_new"
  by (simp add: dual_map_exact_def Trace_new_def lastUsagesByBB_at_def)

lemma lastUsages_setLastUsage:
  "lastUsages (setLastUsage l bb t) = (lastUsages t)(l \<mapsto> bb)"
  by (simp add: setLastUsage_def Let_def)

lemma lastUsagesByBB_at_setLastUsage:
  "lastUsagesByBB_at (lastUsagesByBB (setLastUsage l bb t)) k =
     (if k = bb then insert l (lastUsagesByBB_at (lastUsagesByBB t) k)
      else if lastUsages t l = Some k then lastUsagesByBB_at (lastUsagesByBB t) k - {l}
      else lastUsagesByBB_at (lastUsagesByBB t) k)"
  by (cases "lastUsages t l")
     (auto simp add: setLastUsage_def Let_def lastUsagesByBB_at_def)

lemma dual_map_exact_setLastUsage:
  assumes "dual_map_exact t"
  shows "dual_map_exact (setLastUsage l bb t)"
  unfolding dual_map_exact_def
proof (intro allI)
  fix l' k
  from assms have inv: "\<And>x b. (x \<in> lastUsagesByBB_at (lastUsagesByBB t) b) = (lastUsages t x = Some b)"
    by (simp add: dual_map_exact_def)
  show "(l' \<in> lastUsagesByBB_at (lastUsagesByBB (setLastUsage l bb t)) k)
        = (lastUsages (setLastUsage l bb t) l' = Some k)"
    by (auto simp add: lastUsages_setLastUsage lastUsagesByBB_at_setLastUsage inv)
qed

lemma dual_map_exact_setLastUsage_all:
  "dual_map_exact t \<Longrightarrow> dual_map_exact (setLastUsage_all cs t)"
  by (induction cs arbitrary: t) (auto simp add: dual_map_exact_setLastUsage)

lemma taints_bb_at: "taints_bb bb t = lastUsagesByBB_at (lastUsagesByBB t) bb"
  by (simp add: taints_bb_def lastUsagesByBB_at_def split: option.splits)

lemma setLastUsage_twice:
  "setLastUsage l bb (setLastUsage l bb t) = setLastUsage l bb t"
  by (cases "lastUsages t l")
     (auto simp add: setLastUsage_def Let_def lastUsagesByBB_at_def fun_eq_iff insert_absorb)

lemma setLastUsage_retarget:
  assumes "bbA \<noteq> bbB"
  shows "getLastUsage l (setLastUsage l bbB (setLastUsage l bbA t)) = bbB"
    and "l \<notin> taints_bb bbA (setLastUsage l bbB (setLastUsage l bbA t))"
    and "l \<in> taints_bb bbB (setLastUsage l bbB (setLastUsage l bbA t))"
  using assms
  by (simp_all add: getLastUsage_def taints_bb_at lastUsages_setLastUsage
      lastUsagesByBB_at_setLastUsage)

text \<open>
  Claim C2. From any state, \<open>setLastUsage L bbA\<close> followed by \<open>setLastUsage L bbB\<close> with
  \<open>bbA \<noteq> bbB\<close> leaves \<open>getLastUsage L = bbB\<close>, \<open>L\<close> outside \<open>taints bbA\<close> and inside
  \<open>taints bbB\<close>. After any run of \<open>setLastUsage\<close> calls on a new trace, every pair
  \<open>(label, bb)\<close> of \<open>lastUsages\<close> has the label in the set that \<open>lastUsagesByBB\<close> stores
  for \<open>bb\<close>, and in the set of no other block. Repeating a call with the same label and
  block changes nothing.
\<close>

theorem setLastUsage_dual_map_invariant:
  "(bbA \<noteq> bbB \<longrightarrow>
      getLastUsage L (setLastUsage L bbB (setLastUsage L bbA t)) = bbB
      \<and> L \<notin> taints_bb bbA (setLastUsage L bbB (setLastUsage L bbA t))
      \<and> L \<in> taints_bb bbB (setLastUsage L bbB (setLastUsage L bbA t)))
   \<and> (\<forall>l bb. lastUsages (setLastUsage_all cs Trace_new) l = Some bb \<longrightarrow>
         (\<exists>labels. lastUsagesByBB (setLastUsage_all cs Trace_new) bb = Some labels \<and> l \<in> labels)
         \<and> l \<in> taints_bb bb (setLastUsage_all cs Trace_new)
         \<and> (\<forall>bb' labels'. bb' \<noteq> bb
               \<and> lastUsagesByBB (setLastUsage_all cs Trace_new) bb' = Some labels'
               \<longrightarrow> l \<notin> labels'))
   \<and> setLastUsage L bb0 (setLastUsage L bb0 t) = setLastUsage L bb0 t"
proof -
  have inv: "dual_map_exact (setLastUsage_all cs Trace_new)"
    by (rule dual_map_exact_setLastUsage_all [OF dual_map_exact_new])
  have pairs: "\<forall>l bb. lastUsages (setLastUsage_all cs Trace_new) l = Some bb \<longrightarrow>
         (\<exists>labels. lastUsagesByBB (setLastUsage_all cs Trace_new) bb = Some labels \<and> l \<in> labels)
         \<and> l \<in> taints_bb bb (setLastUsage_all cs Trace_new)
         \<and> (\<forall>bb' labels'. bb' \<noteq> bb
               \<and> lastUsagesByBB (setLastUsage_all cs Trace_new) bb' = Some labels'
               \<longrightarrow> l \<notin> labels')"
  proof (intro allI impI)
    fix l bb
    assume lu: "lastUsages (setLastUsage_all cs Trace_new) l = Some bb"
    let ?t = "setLastUsage_all cs Trace_new"
    from inv lu have mem: "l \<in> lastUsagesByBB_at (lastUsagesByBB ?t) bb"
      by (simp add: dual_map_exact_def)
    then have ex: "\<exists>labels. lastUsagesByBB ?t bb = Some labels \<and> l \<in> labels"
      by (simp add: lastUsagesByBB_at_def split: option.splits)
    then have tb: "l \<in> taints_bb bb ?t"
      by (auto simp add: taints_bb_def)
    have other: "\<forall>bb' labels'. bb' \<noteq> bb \<and> lastUsagesByBB ?t bb' = Some labels' \<longrightarrow> l \<notin> labels'"
    proof (intro allI impI)
      fix bb' labels'
      assume h: "bb' \<noteq> bb \<and> lastUsagesByBB ?t bb' = Some labels'"
      show "l \<notin> labels'"
      proof
        assume "l \<in> labels'"
        with h have "l \<in> lastUsagesByBB_at (lastUsagesByBB ?t) bb'"
          by (simp add: lastUsagesByBB_at_def)
        with inv have "lastUsages ?t l = Some bb'"
          by (simp add: dual_map_exact_def)
        with lu h show False by simp
      qed
    qed
    from ex tb other
    show "(\<exists>labels. lastUsagesByBB ?t bb = Some labels \<and> l \<in> labels)
         \<and> l \<in> taints_bb bb ?t
         \<and> (\<forall>bb' labels'. bb' \<noteq> bb \<and> lastUsagesByBB ?t bb' = Some labels' \<longrightarrow> l \<notin> labels')"
      by blast
  qed
  from setLastUsage_retarget [of bbA bbB L t] setLastUsage_twice [of L bb0 t] pairs
  show ?thesis by blast
qed

theorem setLastUsage_dual_map_invariant_witness:
  "(Some 1 :: ptr) \<noteq> Some 3
   \<and> getLastUsage 5 (setLastUsage 5 (Some 3) (setLastUsage 5 (Some 1) Trace_new)) = Some 3
   \<and> 5 \<notin> taints_bb (Some 1) (setLastUsage 5 (Some 3) (setLastUsage 5 (Some 1) Trace_new))
   \<and> 5 \<in> taints_bb (Some 3) (setLastUsage 5 (Some 3) (setLastUsage 5 (Some 1) Trace_new))
   \<and> lastUsages (setLastUsage_all [(5, Some 1), (5, Some 3), (6, Some 3)] Trace_new) 5 = Some (Some 3)
   \<and> 5 \<in> taints_bb (Some 3) (setLastUsage_all [(5, Some 1), (5, Some 3), (6, Some 3)] Trace_new)
   \<and> lastUsagesByBB (setLastUsage_all [(5, Some 1), (5, Some 3), (6, Some 3)] Trace_new) (Some 1)
       = Some {}
   \<and> (5::nat) \<notin> {}"
proof -
  have neq: "(Some 1 :: ptr) \<noteq> Some 3"
    by simp
  have lu: "lastUsages (setLastUsage_all [(5, Some 1), (5, Some 3), (6, Some 3)] Trace_new) 5
      = Some (Some 3)"
    by (simp add: setLastUsage_def Let_def Trace_new_def lastUsagesByBB_at_def)
  have other: "lastUsagesByBB (setLastUsage_all [(5, Some 1), (5, Some 3), (6, Some 3)] Trace_new) (Some 1)
      = Some {}"
    by (simp add: setLastUsage_def Let_def Trace_new_def lastUsagesByBB_at_def)
  from neq lu other
    setLastUsage_dual_map_invariant
      [of "Some 1" "Some 3" 5 Trace_new "[(5, Some 1), (5, Some 3), (6, Some 3)]" "Some 3"]
  show ?thesis by blast
qed

lemma currentBB_loop_null: "currentBB_loop h None = Some None"
  by (subst currentBB_loop.simps) simp

lemma currentBB_loop_block:
  "is_BasicBlockEntry (kind (h a)) \<Longrightarrow> currentBB_loop h (Some a) = Some (Some a)"
  by (subst currentBB_loop.simps) simp

lemma currentBB_loop_call:
  "is_FunctionCall (kind (h a)) \<Longrightarrow> currentBB_loop h (Some a) = Some None"
  by (subst currentBB_loop.simps) (cases "kind (h a)"; simp)

lemma currentBB_loop_step:
  "\<not> is_BasicBlockEntry (kind (h a)) \<Longrightarrow> \<not> is_FunctionCall (kind (h a)) \<Longrightarrow>
     currentBB_loop h (Some a) = currentBB_loop h (previous (h a))"
  by (subst currentBB_loop.simps) simp

lemma currentBB_loop_skip:
  "event_path h p pre q \<Longrightarrow>
   \<forall>x\<in>set pre. \<not> is_BasicBlockEntry (kind (h x)) \<and> \<not> is_FunctionCall (kind (h x)) \<Longrightarrow>
   currentBB_loop h p = currentBB_loop h q"
proof (induction pre arbitrary: p)
  case Nil
  then show ?case by simp
next
  case (Cons a pre)
  from Cons.prems(1) have p: "p = Some a" and tl: "event_path h (previous (h a)) pre q"
    by simp_all
  from Cons.prems(2) have a: "\<not> is_BasicBlockEntry (kind (h a))" "\<not> is_FunctionCall (kind (h a))"
    and rest: "\<forall>x\<in>set pre. \<not> is_BasicBlockEntry (kind (h x)) \<and> \<not> is_FunctionCall (kind (h x))"
    by simp_all
  from p a have "currentBB_loop h p = currentBB_loop h (previous (h a))"
    by (simp add: currentBB_loop_step)
  also from Cons.IH [OF tl rest] have "\<dots> = currentBB_loop h q" .
  finally show ?case .
qed

text \<open>
  Claim C1. \<open>currentBB\<close> starts at \<open>lastEvent\<close> and follows \<^verbatim>\<open>previous\<close>. If the
  first event on the way that is a block entry or a call is a \<open>BasicBlockEntry\<close>, that
  entry is returned; if it is a \<open>FunctionCall\<close>, the null pointer is returned at once;
  if the chain ends with neither, or the calling thread has no stack, the null pointer is
  returned. In each of these cases the loop does return.
\<close>

theorem currentBB_first_block:
  "(\<forall>pre b. event_path h (lastEvent self t) pre (Some b)
        \<and> (\<forall>x\<in>set pre. \<not> is_BasicBlockEntry (kind (h x)) \<and> \<not> is_FunctionCall (kind (h x)))
        \<and> is_BasicBlockEntry (kind (h b))
      \<longrightarrow> currentBB h self t = Some (Some b))
   \<and> (\<forall>pre c. event_path h (lastEvent self t) pre (Some c)
        \<and> (\<forall>x\<in>set pre. \<not> is_BasicBlockEntry (kind (h x)) \<and> \<not> is_FunctionCall (kind (h x)))
        \<and> is_FunctionCall (kind (h c))
      \<longrightarrow> currentBB h self t = Some None)
   \<and> (\<forall>pre. event_path h (lastEvent self t) pre None
        \<and> (\<forall>x\<in>set pre. \<not> is_BasicBlockEntry (kind (h x)) \<and> \<not> is_FunctionCall (kind (h x)))
      \<longrightarrow> currentBB h self t = Some None)
   \<and> (eventStacks t self = None \<longrightarrow> lastEvent self t = None \<and> currentBB h self t = Some None)"
proof (intro conjI allI impI)
  fix pre b
  assume "event_path h (lastEvent self t) pre (Some b)
     \<and> (\<forall>x\<in>set pre. \<not> is_BasicBlockEntry (kind (h x)) \<and> \<not> is_FunctionCall (kind (h x)))
     \<and> is_BasicBlockEntry (kind (h b))"
  then show "currentBB h self t = Some (Some b)"
    by (simp add: currentBB_def currentBB_loop_skip [of h _ pre "Some b"] currentBB_loop_block)
next
  fix pre c
  assume "event_path h (lastEvent self t) pre (Some c)
     \<and> (\<forall>x\<in>set pre. \<not> is_BasicBlockEntry (kind (h x)) \<and> \<not> is_FunctionCall (kind (h x)))
     \<and> is_FunctionCall (kind (h c))"
  then show "currentBB h self t = Some None"
    by (simp add: currentBB_def currentBB_loop_skip [of h _ pre "Some c"] currentBB_loop_call)
next
  fix pre
  assume "event_path h (lastEvent self t) pre None
     \<and> (\<forall>x\<in>set pre. \<not> is_BasicBlockEntry (kind (h x)) \<and> \<not> is_FunctionCall (kind (h x)))"
  then show "currentBB h self t = Some None"
    by (simp add: currentBB_def currentBB_loop_skip [of h _ pre None] currentBB_loop_null)
next
  assume "eventStacks t self = None"
  then show none: "lastEvent self t = None"
    by (simp add: lastEvent_def currentStack_const_def)
  then show "currentBB h self t = Some None"
    by (simp add: currentBB_def currentBB_loop_null)
qed

theorem currentBB_first_block_witness:
  "event_path (fst example_run4) (lastEvent 0 (example_trace example_run4)) [4] (Some 3)
   \<and> \<not> is_BasicBlockEntry (kind (fst example_run4 4))
   \<and> \<not> is_FunctionCall (kind (fst example_run4 4))
   \<and> is_BasicBlockEntry (kind (fst example_run4 3))
   \<and> currentBB (fst example_run4) 0 (example_trace example_run4) = Some (Some 3)
   \<and> event_path (fst example_run2) (lastEvent 0 (example_trace example_run2)) [] (Some 2)
   \<and> is_FunctionCall (kind (fst example_run2 2))
   \<and> currentBB (fst example_run2) 0 (example_trace example_run2) = Some None
   \<and> event_path (fst example_run1) (lastEvent 0 (example_trace example_run1)) [] (Some 1)
   \<and> is_BasicBlockEntry (kind (fst example_run1 1))
   \<and> currentBB (fst example_run1) 0 (example_trace example_run1) = Some (Some 1)
   \<and> event_path (fst (push 4 (example_heap, TraceEventStack_new)))
        (lastEvent 0 (example_trace (push 4 (example_heap, TraceEventStack_new)))) [4] None
   \<and> currentBB (fst (push 4 (example_heap, TraceEventStack_new))) 0
        (example_trace (push 4 (example_heap, TraceEventStack_new))) = Some None
   \<and> eventStacks Trace_new 0 = None
   \<and> currentBB example_heap 0 Trace_new = Some None"
proof -
  let ?r = "push 4 (example_heap, TraceEventStack_new)"
  have ce: "event_path (fst ?r) (lastEvent 0 (example_trace ?r)) [4] None"
    by (simp add: example_trace_def example_heap_def push_def lastEvent_def
        currentStack_const_def peek_def TraceEventStack_new_def)
  have ke: "\<not> is_BasicBlockEntry (kind (fst ?r 4)) \<and> \<not> is_FunctionCall (kind (fst ?r 4))"
    by (simp add: example_heap_def push_def)
  from ce ke have re: "currentBB (fst ?r) 0 (example_trace ?r) = Some None"
    using currentBB_first_block [of "fst ?r" 0 "example_trace ?r",
        THEN conjunct2, THEN conjunct2, THEN conjunct1, rule_format, of "[4]"]
    by simp
  have c4: "event_path (fst example_run4) (lastEvent 0 (example_trace example_run4)) [4] (Some 3)"
    by (simp add: example_run4_def example_run3_def example_run2_def example_run1_def
        example_trace_def example_heap_def push_def lastEvent_def currentStack_const_def
        peek_def TraceEventStack_new_def)
  have k4: "\<not> is_BasicBlockEntry (kind (fst example_run4 4))
      \<and> \<not> is_FunctionCall (kind (fst example_run4 4))
      \<and> is_BasicBlockEntry (kind (fst example_run4 3))"
    by (simp add: example_run4_def example_run3_def example_run2_def example_run1_def
        example_heap_def push_def)
  have c2: "event_path (fst example_run2) (lastEvent 0 (example_trace example_run2)) [] (Some 2)"
    by (simp add: example_run2_def example_run1_def
        example_trace_def example_heap_def push_def lastEvent_def currentStack_const_def
        peek_def TraceEventStack_new_def)
  have k2: "is_FunctionCall (kind (fst example_run2 2))"
    by (simp add: example_run2_def example_run1_def example_heap_def push_def)
  have c1: "event_path (fst example_run1) (lastEvent 0 (example_trace example_run1)) [] (Some 1)"
    by (simp add: example_run1_def
        example_trace_def example_heap_def push_def lastEvent_def currentStack_const_def
        peek_def TraceEventStack_new_def)
  have k1: "is_BasicBlockEntry (kind (fst example_run1 1))"
    by (simp add: example_run1_def example_heap_def push_def)
  have c0: "eventStacks Trace_new 0 = None"
    by (simp add: Trace_new_def)
  from c4 k4 have r4: "currentBB (fst example_run4) 0 (example_trace example_run4) = Some (Some 3)"
    using currentBB_first_block [of "fst example_run4" 0 "example_trace example_run4",
        THEN conjunct1, rule_format, of "[4]" 3]
    by simp
  from c2 k2 have r2: "currentBB (fst example_run2) 0 (example_trace example_run2) = Some None"
    using currentBB_first_block [of "fst example_run2" 0 "example_trace example_run2",
        THEN conjunct2, THEN conjunct1, rule_format, of "[]" 2]
    by simp
  from c1 k1 have r1: "currentBB (fst example_run1) 0 (example_trace example_run1) = Some (Some 1)"
    using currentBB_first_block [of "fst example_run1" 0 "example_trace example_run1",
        THEN conjunct1, rule_format, of "[]" 1]
    by simp
  from c0 have r0: "currentBB example_heap 0 Trace_new = Some None"
    using currentBB_first_block [of example_heap 0 Trace_new] by simp
  from c4 k4 r4 c2 k2 r2 c1 k1 r1 ce re c0 r0 show ?thesis by simp
qed

section \<open>Properties of FunctionCall\<close>

lemma getCaller_loop_null: "getCaller_loop h None = Some None"
  by (subst getCaller_loop.simps) simp

lemma getCaller_loop_block:
  "is_BasicBlockEntry (kind (h a)) \<Longrightarrow> getCaller_loop h (Some a) = Some (Some a)"
  by (subst getCaller_loop.simps) simp

lemma getCaller_loop_step:
  "\<not> is_BasicBlockEntry (kind (h a)) \<Longrightarrow>
     getCaller_loop h (Some a) = getCaller_loop h (previous (h a))"
  by (subst getCaller_loop.simps) simp

lemma getCaller_loop_skip:
  "event_path h p pre q \<Longrightarrow>
   \<forall>x\<in>set pre. \<not> is_BasicBlockEntry (kind (h x)) \<Longrightarrow>
   getCaller_loop h p = getCaller_loop h q"
proof (induction pre arbitrary: p)
  case Nil
  then show ?case by simp
next
  case (Cons a pre)
  from Cons.prems(1) have p: "p = Some a" and tl: "event_path h (previous (h a)) pre q"
    by simp_all
  from Cons.prems(2) have a: "\<not> is_BasicBlockEntry (kind (h a))"
    and rest: "\<forall>x\<in>set pre. \<not> is_BasicBlockEntry (kind (h x))"
    by simp_all
  from p a have "getCaller_loop h p = getCaller_loop h (previous (h a))"
    by (simp add: getCaller_loop_step)
  also from Cons.IH [OF tl rest] have "\<dots> = getCaller_loop h q" .
  finally show ?case .
qed

text \<open>
  Claim C6. For a \<open>FunctionCall\<close> object, \<open>getCaller\<close> follows \<^verbatim>\<open>previous\<close> from the
  event before the call, passes over every event that is not a \<open>BasicBlockEntry\<close>
  (calls and returns among them) and returns the first \<open>BasicBlockEntry\<close> it meets; it
  returns the null pointer if the chain ends before one is met. In both cases the loop
  does return.
\<close>

theorem getCaller_nearest_block:
  assumes "is_FunctionCall (kind (h c))"
  shows "(\<forall>pre b. event_path h (previous (h c)) pre (Some b)
            \<and> (\<forall>x\<in>set pre. \<not> is_BasicBlockEntry (kind (h x)))
            \<and> is_BasicBlockEntry (kind (h b))
          \<longrightarrow> getCaller h c = Some (Some b))
         \<and> (\<forall>pre. event_path h (previous (h c)) pre None
            \<and> (\<forall>x\<in>set pre. \<not> is_BasicBlockEntry (kind (h x)))
          \<longrightarrow> getCaller h c = Some None)"
proof (intro conjI allI impI)
  fix pre b
  assume "event_path h (previous (h c)) pre (Some b)
     \<and> (\<forall>x\<in>set pre. \<not> is_BasicBlockEntry (kind (h x)))
     \<and> is_BasicBlockEntry (kind (h b))"
  then show "getCaller h c = Some (Some b)"
    by (simp add: getCaller_def getCaller_loop_skip [of h _ pre "Some b"] getCaller_loop_block)
next
  fix pre
  assume "event_path h (previous (h c)) pre None
     \<and> (\<forall>x\<in>set pre. \<not> is_BasicBlockEntry (kind (h x)))"
  then show "getCaller h c = Some None"
    by (simp add: getCaller_def getCaller_loop_skip [of h _ pre None] getCaller_loop_null)
qed

theorem getCaller_nearest_block_witness:
  "is_FunctionCall (kind (fst example_run5 5))
   \<and> event_path (fst example_run5) (previous (fst example_run5 5)) [4, 2] (Some 1)
   \<and> \<not> is_BasicBlockEntry (kind (fst example_run5 4))
   \<and> \<not> is_BasicBlockEntry (kind (fst example_run5 2))
   \<and> is_BasicBlockEntry (kind (fst example_run5 1))
   \<and> getCaller (fst example_run5) 5 = Some (Some 1)
   \<and> is_FunctionCall (kind (fst (push 2 (example_heap, TraceEventStack_new)) 2))
   \<and> event_path (fst (push 2 (example_heap, TraceEventStack_new)))
        (previous (fst (push 2 (example_heap, TraceEventStack_new)) 2)) [] None
   \<and> getCaller (fst (push 2 (example_heap, TraceEventStack_new))) 2 = Some None"
proof -
  have k5: "is_FunctionCall (kind (fst example_run5 5))"
    by (simp add: example_run5_def example_run2_def example_run1_def example_heap_def push_def)
  have c5: "event_path (fst example_run5) (previous (fst example_run5 5)) [4, 2] (Some 1)"
    by (simp add: example_run5_def example_run2_def example_run1_def example_heap_def push_def
        TraceEventStack_new_def)
  have b5: "\<not> is_BasicBlockEntry (kind (fst example_run5 4))
      \<and> \<not> is_BasicBlockEntry (kind (fst example_run5 2))
      \<and> is_BasicBlockEntry (kind (fst example_run5 1))"
    by (simp add: example_run5_def example_run2_def example_run1_def example_heap_def push_def)
  have k2: "is_FunctionCall (kind (fst (push 2 (example_heap, TraceEventStack_new)) 2))"
    by (simp add: example_heap_def push_def)
  have c2: "event_path (fst (push 2 (example_heap, TraceEventStack_new)))
        (previous (fst (push 2 (example_heap, TraceEventStack_new)) 2)) [] None"
    by (simp add: example_heap_def push_def TraceEventStack_new_def)
  from c5 b5 have r5: "getCaller (fst example_run5) 5 = Some (Some 1)"
    using getCaller_nearest_block [of "fst example_run5" 5, OF k5, THEN conjunct1, rule_format,
        of "[4, 2]" 1]
    by simp
  from c2 have r2: "getCaller (fst (push 2 (example_heap, TraceEventStack_new))) 2 = Some None"
    using getCaller_nearest_block [of "fst (push 2 (example_heap, TraceEventStack_new))" 2, OF k2,
        THEN conjunct2, rule_format, of "[]"]
    by simp
  from k5 c5 b5 r5 k2 c2 r2 show ?thesis by simp
qed

section \<open>Properties of BasicBlockTrace\<close>

lemma of_char_zero_iff: "(of_char c :: nat) = 0 \<longleftrightarrow> c = CHR 0x00"
proof -
  have "(of_char (CHR 0x00) :: nat) = 0" by simp
  then have "(of_char c :: nat) = 0 \<longleftrightarrow> (of_char c :: nat) = of_char (CHR 0x00)" by simp
  then show ?thesis by (simp only: of_char_eq_iff)
qed

lemma of_char_pos_iff: "0 < (of_char c :: nat) \<longleftrightarrow> c \<noteq> CHR 0x00"
  using of_char_zero_iff [of c] by (simp only: neq0_conv [symmetric]) 

lemma c_str_Nil: "c_str [] = []"
  by (simp add: c_str_def)

lemma c_str_Cons: "c_str (x # xs) = (if x = CHR 0x00 then [] else x # c_str xs)"
  by (simp add: c_str_def)

lemma strcmp_zero_iff: "strcmp a b = 0 \<longleftrightarrow> c_str a = c_str b"
proof (induction a b rule: strcmp.induct)
  case 1
  show ?case by simp
next
  case (2 y ys)
  show ?case by (simp add: c_str_Nil c_str_Cons of_char_zero_iff)
next
  case (3 x xs)
  show ?case by (simp add: c_str_Nil c_str_Cons of_char_zero_iff)
next
  case (4 x xs y ys)
  then show ?case by (auto simp add: c_str_Cons of_char_pos_iff)
qed

lemma strcmp_negative_iff: "strcmp a b < 0 \<longleftrightarrow> c_str a < c_str b"
proof (induction a b rule: strcmp.induct)
  case 1
  show ?case by simp
next
  case (2 y ys)
  show ?case by (simp add: c_str_Nil c_str_Cons of_char_pos_iff)
next
  case (3 x xs)
  show ?case by (simp add: c_str_Nil c_str_Cons)
next
  case (4 x xs y ys)
  show ?case
  proof (cases "x = y")
    case True
    with 4 show ?thesis by (simp add: c_str_Cons)
  next
    case False
    then show ?thesis
      by (auto simp add: c_str_Cons less_char_def of_char_pos_iff)
  qed
qed

lemma operator_less_lexicographic:
  "operator_less m a b \<longleftrightarrow>
     c_str (m (fname a)) < c_str (m (fname b))
     \<or> c_str (m (fname a)) = c_str (m (fname b))
       \<and> (index a < index b \<or> index a = index b \<and> entryCount a < entryCount b)"
  using strcmp_zero_iff [of "m (fname a)" "m (fname b)"]
    strcmp_negative_iff [of "m (fname a)" "m (fname b)"]
  by (auto simp add: operator_less_def Let_def)

lemma lex_triple_trans:
  fixes n1 n2 n3 :: "'a::order" and i1 i2 i3 :: "'b::order" and e1 e2 e3 :: "'c::order"
  assumes "n1 < n2 \<or> n1 = n2 \<and> (i1 < i2 \<or> i1 = i2 \<and> e1 < e2)"
    and "n2 < n3 \<or> n2 = n3 \<and> (i2 < i3 \<or> i2 = i3 \<and> e2 < e3)"
  shows "n1 < n3 \<or> n1 = n3 \<and> (i1 < i3 \<or> i1 = i3 \<and> e1 < e3)"
  using assms by (elim disjE conjE) (auto intro: less_trans)

lemma lex_triple_incomparable:
  fixes n1 n2 :: "'a::linorder" and i1 i2 :: "'b::linorder" and e1 e2 :: "'c::linorder"
  assumes "\<not> (n1 < n2 \<or> n1 = n2 \<and> (i1 < i2 \<or> i1 = i2 \<and> e1 < e2))"
    and "\<not> (n2 < n1 \<or> n2 = n1 \<and> (i2 < i1 \<or> i2 = i1 \<and> e2 < e1))"
  shows "n1 = n2 \<and> i1 = i2 \<and> e1 = e2"
  using assms by (metis not_less_iff_gr_or_eq)

lemma operator_less_irrefl: "\<not> operator_less m a a"
  by (simp add: operator_less_lexicographic)

lemma operator_less_trans:
  assumes "operator_less m a b" and "operator_less m b c"
  shows "operator_less m a c"
  unfolding operator_less_lexicographic
  by (rule lex_triple_trans [OF assms(1) [unfolded operator_less_lexicographic]
        assms(2) [unfolded operator_less_lexicographic]])

lemma operator_less_incomparable:
  assumes "\<not> operator_less m a b" and "\<not> operator_less m b a"
  shows "c_str (m (fname a)) = c_str (m (fname b)) \<and> index a = index b
         \<and> entryCount a = entryCount b"
  by (rule lex_triple_incomparable [OF assms(1) [unfolded operator_less_lexicographic]
        assms(2) [unfolded operator_less_lexicographic]])

text \<open>
  Claim C7. \<^verbatim>\<open>operator<\<close> compares lexicographically: first the function names as C
  strings in byte order, then the block index, then the entry count. It is a strict weak
  order: irreflexive, transitive, and with a transitive incomparability. For one function
  name, \<open>(f,0,0) < (f,0,1) < (f,1,0)\<close>; a trace of the function named \<open>a\<close> is below
  every trace of the function named \<open>b\<close>, whatever their indices and counts.
\<close>

theorem operator_less_strict_weak_order:
  "(operator_less m a b \<longleftrightarrow>
      c_str (m (fname a)) < c_str (m (fname b))
      \<or> c_str (m (fname a)) = c_str (m (fname b))
        \<and> (index a < index b \<or> index a = index b \<and> entryCount a < entryCount b))
   \<and> \<not> operator_less m a a
   \<and> (operator_less m a b \<and> operator_less m b c \<longrightarrow> operator_less m a c)
   \<and> (\<not> operator_less m a b \<and> \<not> operator_less m b a
        \<and> \<not> operator_less m b c \<and> \<not> operator_less m c b
      \<longrightarrow> \<not> operator_less m a c \<and> \<not> operator_less m c a)
   \<and> operator_less m \<lparr>fname = f, index = 0, entryCount = 0\<rparr> \<lparr>fname = f, index = 0, entryCount = 1\<rparr>
   \<and> operator_less m \<lparr>fname = f, index = 0, entryCount = 1\<rparr> \<lparr>fname = f, index = 1, entryCount = 0\<rparr>
   \<and> (m (fname a) = ''a'' \<and> m (fname b) = ''b'' \<longrightarrow> operator_less m a b)"
proof (intro conjI)
  show "operator_less m a b \<longleftrightarrow>
      c_str (m (fname a)) < c_str (m (fname b))
      \<or> c_str (m (fname a)) = c_str (m (fname b))
        \<and> (index a < index b \<or> index a = index b \<and> entryCount a < entryCount b)"
    by (rule operator_less_lexicographic)
  show "\<not> operator_less m a a"
    by (rule operator_less_irrefl)
  show "operator_less m a b \<and> operator_less m b c \<longrightarrow> operator_less m a c"
    by (blast intro: operator_less_trans)
  show "\<not> operator_less m a b \<and> \<not> operator_less m b a
        \<and> \<not> operator_less m b c \<and> \<not> operator_less m c b
      \<longrightarrow> \<not> operator_less m a c \<and> \<not> operator_less m c a"
  proof
    assume h: "\<not> operator_less m a b \<and> \<not> operator_less m b a
        \<and> \<not> operator_less m b c \<and> \<not> operator_less m c b"
    from h have ab: "c_str (m (fname a)) = c_str (m (fname b)) \<and> index a = index b
         \<and> entryCount a = entryCount b"
      by (intro operator_less_incomparable) simp_all
    from h have bc: "c_str (m (fname b)) = c_str (m (fname c)) \<and> index b = index c
         \<and> entryCount b = entryCount c"
      by (intro operator_less_incomparable) simp_all
    from ab bc show "\<not> operator_less m a c \<and> \<not> operator_less m c a"
      by (simp add: operator_less_lexicographic)
  qed
  show "operator_less m \<lparr>fname = f, index = 0, entryCount = 0\<rparr> \<lparr>fname = f, index = 0, entryCount = 1\<rparr>"
    by (simp add: operator_less_lexicographic)
  show "operator_less m \<lparr>fname = f, index = 0, entryCount = 1\<rparr> \<lparr>fname = f, index = 1, entryCount = 0\<rparr>"
    by (simp add: operator_less_lexicographic)
  show "m (fname a) = ''a'' \<and> m (fname b) = ''b'' \<longrightarrow> operator_less m a b"
    by (simp add: operator_less_lexicographic c_str_Cons c_str_Nil)
qed

theorem operator_less_strict_weak_order_witness:
  "example_strmem (fname \<lparr>fname = 100, index = 7, entryCount = 9\<rparr>) = ''a''
   \<and> example_strmem (fname \<lparr>fname = 200, index = 0, entryCount = 0\<rparr>) = ''b''
   \<and> operator_less example_strmem \<lparr>fname = 100, index = 7, entryCount = 9\<rparr>
        \<lparr>fname = 200, index = 0, entryCount = 0\<rparr>
   \<and> operator_less example_strmem \<lparr>fname = 200, index = 0, entryCount = 0\<rparr>
        \<lparr>fname = 200, index = 0, entryCount = 1\<rparr>
   \<and> operator_less example_strmem \<lparr>fname = 100, index = 7, entryCount = 9\<rparr>
        \<lparr>fname = 200, index = 0, entryCount = 1\<rparr>
   \<and> \<not> operator_less example_strmem \<lparr>fname = 100, index = 2, entryCount = 3\<rparr>
        \<lparr>fname = 300, index = 2, entryCount = 3\<rparr>
   \<and> \<not> operator_less example_strmem \<lparr>fname = 300, index = 2, entryCount = 3\<rparr>
        \<lparr>fname = 100, index = 2, entryCount = 3\<rparr>
   \<and> \<not> operator_less example_strmem \<lparr>fname = 100, index = 2, entryCount = 3\<rparr>
        \<lparr>fname = 100, index = 2, entryCount = 3\<rparr>
   \<and> \<not> operator_eq \<lparr>fname = 100, index = 2, entryCount = 3\<rparr>
        \<lparr>fname = 300, index = 2, entryCount = 3\<rparr>"
proof -
  let ?a = "\<lparr>fname = 100, index = 7, entryCount = 9\<rparr>"
  let ?b = "\<lparr>fname = 200, index = 0, entryCount = 0\<rparr>"
  let ?c = "\<lparr>fname = 200, index = 0, entryCount = 1\<rparr>"
  let ?x = "\<lparr>fname = 100, index = 2, entryCount = 3\<rparr>"
  let ?y = "\<lparr>fname = 300, index = 2, entryCount = 3\<rparr>"
  have names: "example_strmem (fname ?a) = ''a'' \<and> example_strmem (fname ?b) = ''b''"
    by (simp add: example_strmem_def)
  have bc: "operator_less example_strmem ?b ?c"
    by (simp add: operator_less_def example_strmem_def)
  have xy: "\<not> operator_less example_strmem ?x ?y \<and> \<not> operator_less example_strmem ?y ?x"
    by (simp add: operator_less_def example_strmem_def)
  have neq: "\<not> operator_eq ?x ?y"
    by (simp add: operator_eq_def)
  from names operator_less_strict_weak_order [of example_strmem ?a ?b ?c]
  have ab: "operator_less example_strmem ?a ?b"
    by blast
  with bc operator_less_strict_weak_order [of example_strmem ?a ?b ?c]
  have ac: "operator_less example_strmem ?a ?c"
    by blast
  from xy operator_less_strict_weak_order [of example_strmem ?x ?y ?x]
  have xx: "\<not> operator_less example_strmem ?x ?x"
    by blast
  from names ab bc ac xy xx neq show ?thesis
    by blast
qed

text \<open>
  Claim C8. The hash agrees with equality: two traces that \<^verbatim>\<open>operator==\<close> accepts have
  the same hash, whatever the standard library's integer hashes are. The hash reads the
  block index and the entry count only, so replacing the function name alone does not
  change it, while \<^verbatim>\<open>operator==\<close> holds exactly when all three fields agree.
\<close>

theorem hasher_consistent_with_equality:
  "(operator_eq a b \<longrightarrow> BasicBlockTraceHasher hu hs a = BasicBlockTraceHasher hu hs b)
   \<and> BasicBlockTraceHasher hu hs (a\<lparr>fname := f\<rparr>) = BasicBlockTraceHasher hu hs a
   \<and> (operator_eq a b \<longleftrightarrow> fname a = fname b \<and> index a = index b \<and> entryCount a = entryCount b)
   \<and> (operator_eq a b \<longleftrightarrow> a = b)"
  by (auto simp add: operator_eq_def BasicBlockTraceHasher_def)

theorem hasher_consistent_with_equality_witness:
  "operator_eq \<lparr>fname = 100, index = 3, entryCount = 5\<rparr> \<lparr>fname = 100, index = 3, entryCount = 5\<rparr>
   \<and> BasicBlockTraceHasher (\<lambda>x. x) (\<lambda>x. x) \<lparr>fname = 100, index = 3, entryCount = 5\<rparr> = 12
   \<and> BasicBlockTraceHasher (\<lambda>x. x) (\<lambda>x. x) \<lparr>fname = 200, index = 3, entryCount = 5\<rparr> = 12
   \<and> \<not> operator_eq \<lparr>fname = 200, index = 3, entryCount = 5\<rparr> \<lparr>fname = 100, index = 3, entryCount = 5\<rparr>"
  using hasher_consistent_with_equality
    [of "\<lparr>fname = 100, index = 3, entryCount = 5\<rparr>" "\<lparr>fname = 100, index = 3, entryCount = 5\<rparr>"
        "\<lambda>x. x" "\<lambda>x. x" 200]
  by (simp add: operator_eq_def BasicBlockTraceHasher_def)

section \<open>Properties of event construction\<close>

lemma construct_events_from:
  "construct_events ks n0 = (es, n) \<Longrightarrow>
     n = n0 + of_nat (length ks) \<and> length es = length ks
     \<and> (\<forall>i<length ks. eventIndex (es ! i) = n0 + of_nat i)"
proof (induction ks arbitrary: n0 es n)
  case Nil
  then show ?case by simp
next
  case (Cons k ks)
  obtain es' n' where rest: "construct_events ks (n0 + 1) = (es', n')"
    by (cases "construct_events ks (n0 + 1)")
  with Cons.prems have es: "es = \<lparr>previous = None, eventIndex = n0, kind = k\<rparr> # es'" and n: "n = n'"
    by (simp_all add: TraceEvent_ctor_def)
  from Cons.IH [OF rest] have IH:
    "n' = n0 + 1 + of_nat (length ks)" "length es' = length ks"
    "\<forall>i<length ks. eventIndex (es' ! i) = n0 + 1 + of_nat i"
    by simp_all
  have "eventIndex (es ! i) = n0 + of_nat i" if "i < length (k # ks)" for i
  proof (cases i)
    case 0
    with es show ?thesis by simp
  next
    case (Suc i')
    with that IH(3) es show ?thesis by simp
  qed
  with es n IH(1,2) show ?case by simp
qed

lemma size_t_of_nat_less:
  "i < j \<Longrightarrow> j < 2 ^ 64 \<Longrightarrow> (of_nat i :: size_t) < of_nat j"
  by (simp add: of_nat_word_less_iff take_bit_nat_eq_self)

lemma size_t_of_nat_wraps: "(of_nat (2 ^ 64) :: size_t) = 0"
  by simp

lemma construct_events_wrapped:
  assumes wrap: "(of_nat N :: size_t) = 0" and pos: "0 < N"
  shows "length (fst (construct_events (replicate (N + 1) k) numTraceEvents_init)) = N + 1
   \<and> eventIndex (fst (construct_events (replicate (N + 1) k) numTraceEvents_init) ! 0) = 0
   \<and> eventIndex (fst (construct_events (replicate (N + 1) k) numTraceEvents_init) ! N) = 0
   \<and> \<not> eventIndex (fst (construct_events (replicate (N + 1) k) numTraceEvents_init) ! 0)
       < eventIndex (fst (construct_events (replicate (N + 1) k) numTraceEvents_init) ! N)
   \<and> \<not> distinct (map eventIndex (fst (construct_events (replicate (N + 1) k)
          numTraceEvents_init)))"
proof -
  define ks where "ks = replicate (N + 1) k"
  define es where "es = fst (construct_events ks numTraceEvents_init)"
  have len_ks: "length ks = N + 1"
    by (simp add: ks_def)
  have run: "construct_events ks numTraceEvents_init
      = (es, snd (construct_events ks numTraceEvents_init))"
    by (simp add: es_def)
  from construct_events_from [OF run]
  have len: "length es = N + 1"
    and nth: "\<forall>i<N + 1. eventIndex (es ! i) = of_nat i"
    by (simp_all add: numTraceEvents_init_def len_ks)
  from nth have first: "eventIndex (es ! 0) = 0"
    by simp
  from nth wrap have last: "eventIndex (es ! N) = 0"
    by simp
  have nd: "\<not> distinct (map eventIndex es)"
  proof
    assume "distinct (map eventIndex es)"
    with len pos have "map eventIndex es ! 0 \<noteq> map eventIndex es ! N"
      by (simp add: distinct_conv_nth)
    with len first last show False by simp
  qed
  from len first last nd show ?thesis
    unfolding es_def ks_def by simp
qed

text \<open>
  Claim C9, with the bound that the width of the counter forces. Every constructed event
  takes its index from the one counter, which starts at zero and is incremented exactly
  once per construction. In a run of at most \<open>2 ^ 64\<close> constructions the counter does not
  wrap: the event built at position \<open>i\<close> has index \<open>i\<close>, the indices are strictly
  increasing in construction order, and no two events share an index.
\<close>

theorem eventIndex_strictly_increasing:
  assumes "construct_events ks numTraceEvents_init = (es, n)"
    and "length ks \<le> 2 ^ 64"
  shows "numTraceEvents_init = 0
         \<and> length es = length ks
         \<and> n = of_nat (length ks)
         \<and> (\<forall>i<length es. eventIndex (es ! i) = of_nat i)
         \<and> (\<forall>i j. i < j \<and> j < length es \<longrightarrow> eventIndex (es ! i) < eventIndex (es ! j))
         \<and> distinct (map eventIndex es)
         \<and> snd (TraceEvent_ctor k m) = m + 1
         \<and> eventIndex (fst (TraceEvent_ctor k m)) = m"
proof -
  from construct_events_from [OF assms(1)]
  have n: "n = of_nat (length ks)" and len: "length es = length ks"
    and nth: "\<forall>i<length es. eventIndex (es ! i) = of_nat i"
    by (simp_all add: numTraceEvents_init_def)
  have less: "eventIndex (es ! i) < eventIndex (es ! j)" if "i < j" "j < length es" for i j
  proof -
    from that len assms(2) have "j < 2 ^ 64" by simp
    with that(1) have "(of_nat i :: size_t) < of_nat j" by (rule size_t_of_nat_less)
    with that nth show ?thesis by simp
  qed
  then have incr: "\<forall>i j. i < j \<and> j < length es \<longrightarrow> eventIndex (es ! i) < eventIndex (es ! j)"
    by blast
  have dist: "distinct (map eventIndex es)"
  proof (unfold distinct_conv_nth, intro allI impI)
    fix i j
    assume i: "i < length (map eventIndex es)" and j: "j < length (map eventIndex es)" and ne: "i \<noteq> j"
    from ne consider "i < j" | "j < i" by linarith
    then show "map eventIndex es ! i \<noteq> map eventIndex es ! j"
    proof cases
      case 1
      with j have "eventIndex (es ! i) < eventIndex (es ! j)" by (simp add: less)
      with i j show ?thesis by simp
    next
      case 2
      with i have "eventIndex (es ! j) < eventIndex (es ! i)" by (simp add: less)
      with i j show ?thesis by simp
    qed
  qed
  from len n nth incr dist show ?thesis
    by (simp add: TraceEvent_ctor_def numTraceEvents_init_def)
qed

theorem eventIndex_strictly_increasing_witness:
  "construct_events [BasicBlockEntry 0 100 0, FunctionCall 200, BasicBlockEntry 0 200 0]
       numTraceEvents_init
     = ([\<lparr>previous = None, eventIndex = 0, kind = BasicBlockEntry 0 100 0\<rparr>,
         \<lparr>previous = None, eventIndex = 1, kind = FunctionCall 200\<rparr>,
         \<lparr>previous = None, eventIndex = 2, kind = BasicBlockEntry 0 200 0\<rparr>], 3)
   \<and> length [BasicBlockEntry 0 100 0, FunctionCall 200, BasicBlockEntry 0 200 0] \<le> (2::nat) ^ 64
   \<and> (0::nat) < 2 \<and> (2::nat) < 3
   \<and> eventIndex ([\<lparr>previous = None, eventIndex = 0, kind = BasicBlockEntry 0 100 0\<rparr>,
         \<lparr>previous = None, eventIndex = 1, kind = FunctionCall 200\<rparr>,
         \<lparr>previous = None, eventIndex = 2, kind = BasicBlockEntry 0 200 0\<rparr>] ! 0)
       < eventIndex ([\<lparr>previous = None, eventIndex = 0, kind = BasicBlockEntry 0 100 0\<rparr>,
         \<lparr>previous = None, eventIndex = 1, kind = FunctionCall 200\<rparr>,
         \<lparr>previous = None, eventIndex = 2, kind = BasicBlockEntry 0 200 0\<rparr>] ! 2)"
proof -
  have run: "construct_events [BasicBlockEntry 0 100 0, FunctionCall 200, BasicBlockEntry 0 200 0]
       numTraceEvents_init
     = ([\<lparr>previous = None, eventIndex = 0, kind = BasicBlockEntry 0 100 0\<rparr>,
         \<lparr>previous = None, eventIndex = 1, kind = FunctionCall 200\<rparr>,
         \<lparr>previous = None, eventIndex = 2, kind = BasicBlockEntry 0 200 0\<rparr>], 3)"
    by (simp add: TraceEvent_ctor_def numTraceEvents_init_def)
  have bound: "length [BasicBlockEntry 0 100 0, FunctionCall 200, BasicBlockEntry 0 200 0] \<le> (2::nat) ^ 64"
    by simp
  from eventIndex_strictly_increasing [OF run bound] run bound show ?thesis
    by simp
qed

text \<open>
  Without the bound the property fails. The counter is a \<^verbatim>\<open>size_t\<close>, so the construction
  number \<open>2 ^ 64 + 1\<close> finds it back at zero: in a run of \<open>2 ^ 64 + 1\<close> constructions the
  first and the last event both have index 0, so the indices are neither strictly
  increasing nor unique.
\<close>

theorem eventIndex_wraps_counterexample:
  "length (fst (construct_events (replicate (2 ^ 64 + 1) PlainTraceEvent) numTraceEvents_init))
     = 2 ^ 64 + 1
   \<and> eventIndex (fst (construct_events (replicate (2 ^ 64 + 1) PlainTraceEvent)
        numTraceEvents_init) ! 0) = 0
   \<and> eventIndex (fst (construct_events (replicate (2 ^ 64 + 1) PlainTraceEvent)
        numTraceEvents_init) ! (2 ^ 64)) = 0
   \<and> \<not> eventIndex (fst (construct_events (replicate (2 ^ 64 + 1) PlainTraceEvent)
          numTraceEvents_init) ! 0)
       < eventIndex (fst (construct_events (replicate (2 ^ 64 + 1) PlainTraceEvent)
          numTraceEvents_init) ! (2 ^ 64))
   \<and> \<not> distinct (map eventIndex (fst (construct_events (replicate (2 ^ 64 + 1) PlainTraceEvent)
          numTraceEvents_init)))"
proof -
  have pos: "(0::nat) < 2 ^ 64"
    by simp
  show ?thesis
    by (rule construct_events_wrapped [OF size_t_of_nat_wraps pos])
qed

end
